theory Spec2Isabelle
  imports Main
begin

section \<open>Strings\<close>

text \<open>
  A Python \<^verbatim>\<open>str\<close> is a sequence of Unicode code points and \<^verbatim>\<open>len\<close> counts code
  points. The box-drawing glyphs the renderers print are outside ASCII, so a string is
  modelled as the list of its code points. \<open>ascii\<close> embeds an ASCII literal.
\<close>

type_synonym ustr = "nat list"

definition ascii :: "string \<Rightarrow> ustr" where
  "ascii s = map of_char s"

definition SPACE :: nat where "SPACE = 32"
definition HBAR :: nat where "HBAR = 9472"      \<comment> \<open>U+2500, horizontal line\<close>
definition VBAR :: nat where "VBAR = 9474"      \<comment> \<open>U+2502, vertical line\<close>
definition TOPLEFT :: nat where "TOPLEFT = 9484"    \<comment> \<open>U+250C\<close>
definition TOPRIGHT :: nat where "TOPRIGHT = 9488"   \<comment> \<open>U+2510\<close>
definition BOTLEFT :: nat where "BOTLEFT = 9492"    \<comment> \<open>U+2514\<close>
definition BOTRIGHT :: nat where "BOTRIGHT = 9496"   \<comment> \<open>U+2518\<close>
definition TEE_RIGHT :: nat where "TEE_RIGHT = 9500"  \<comment> \<open>U+251C, opens to the right\<close>
definition TEE_LEFT :: nat where "TEE_LEFT = 9508"   \<comment> \<open>U+2524, opens to the left\<close>
definition TEE_UP :: nat where "TEE_UP = 9524"     \<comment> \<open>U+2534, opens upwards\<close>

text \<open>The string literals of \<^verbatim>\<open>components.py\<close>.\<close>

definition R_INDENT :: ustr where "R_INDENT = ascii ''r''"
definition CORNER :: ustr where "CORNER = [BOTLEFT, HBAR]"
definition BRANCH :: ustr where "BRANCH = [TEE_RIGHT, HBAR]"
definition BLANK_INDENT :: ustr where "BLANK_INDENT = [SPACE, SPACE, SPACE, SPACE]"
definition BAR_INDENT :: ustr where "BAR_INDENT = [VBAR, SPACE, SPACE, SPACE]"
definition OPEN_PREFIX :: ustr where "OPEN_PREFIX = [TOPLEFT, HBAR]"
definition OPEN_POSTFIX :: ustr where "OPEN_POSTFIX = [HBAR, TOPRIGHT]"
definition MID_POSTFIX :: ustr where "MID_POSTFIX = [HBAR, TEE_LEFT]"
definition CLOSE_POSTFIX :: ustr where "CLOSE_POSTFIX = [HBAR, BOTRIGHT]"
definition CLOSE_FIRST :: ustr where "CLOSE_FIRST = [BOTLEFT, HBAR, HBAR, HBAR]"
definition CLOSE_REST :: ustr where "CLOSE_REST = [TEE_UP, HBAR, HBAR, HBAR]"
definition CLOSE_JOIN :: ustr where "CLOSE_JOIN = [TEE_UP, HBAR]"

text \<open>
  \<^verbatim>\<open>c * n\<close> for a one-character string and a Python integer: the empty string when
  \<open>n\<close> is negative.
\<close>

definition str_times :: "nat \<Rightarrow> int \<Rightarrow> ustr" where
  "str_times c n = replicate (nat n) c"

text \<open>
  \<^verbatim>\<open>s.replace(old, new, count)\<close> for a non-empty \<open>old\<close>: the occurrences of \<open>old\<close>
  are replaced from left to right without overlap, at most \<open>count\<close> of them, all of
  them when \<open>count\<close> is negative (the default is \<open>-1\<close>). Both calls in the source
  pass the four-character literal \<open>BAR_INDENT\<close>, a vertical line and three spaces, as
  \<open>old\<close>.
\<close>

function replace :: "ustr \<Rightarrow> ustr \<Rightarrow> int \<Rightarrow> ustr \<Rightarrow> ustr" where
  "replace old new count [] = []"
| "replace old new count (c # cs) =
     (if count \<noteq> 0 \<and> take (length old) (c # cs) = old
      then new @ replace old new (count - 1) (drop (length old - 1) cs)
      else c # replace old new count cs)"
  by pat_completeness auto
termination
  by (relation "measure (\<lambda>(old, new, count, s). length s)") auto

text \<open>\<^verbatim>\<open>str(n)\<close> for a Python integer: decimal digits, with a minus sign when negative.\<close>

function digits :: "nat \<Rightarrow> ustr" where
  "digits n = (if n < 10 then [48 + n] else digits (n div 10) @ [48 + n mod 10])"
  by pat_completeness auto
termination
  by (relation "measure (\<lambda>n. n)") auto

definition str_int :: "int \<Rightarrow> ustr" where
  "str_int i = (if i < 0 then ascii ''-'' @ digits (nat (- i)) else digits (nat i))"

section \<open>Decoded JSON\<close>

text \<open>
  What \<^verbatim>\<open>json.load\<close> returns. A mapping is a \<^verbatim>\<open>dict\<close>, iterated in insertion
  order, so it is an association list. Only \<^verbatim>\<open>dict\<close> is tested for by the builder;
  every other value is handed to \<^verbatim>\<open>str\<close>. The texts Python prints for a float and
  for a list are not modelled: \<open>JFloat\<close> and \<open>JList\<close> carry the result of
  \<^verbatim>\<open>str\<close> on the value.
\<close>

datatype json =
    JNull
  | JBool bool
  | JInt int
  | JFloat ustr
  | JStr ustr
  | JList ustr
  | JObj "(ustr \<times> json) list"

fun py_str :: "json \<Rightarrow> ustr" where
  "py_str JNull = ascii ''None''"
| "py_str (JBool b) = (if b then ascii ''True'' else ascii ''False'')"
| "py_str (JInt i) = str_int i"
| "py_str (JFloat t) = t"
| "py_str (JStr s) = s"
| "py_str (JList t) = t"
| "py_str (JObj kvs) = []"  \<comment> \<open>never called: a dict takes the other branch of \<open>build_tree\<close>\<close>

fun is_dict :: "json \<Rightarrow> bool" where
  "is_dict (JObj kvs) = True"
| "is_dict _ = False"

section \<open>Nodes\<close>

text \<open>
  \<^verbatim>\<open>Component\<close> with its two subclasses. \<open>Container\<close> has the attribute
  \<^verbatim>\<open>children\<close>, \<open>Leaf\<close> has not. Each style has its own pair of subclasses
  (\<^verbatim>\<open>TreeContainer\<close>/\<^verbatim>\<open>TreeLeaf\<close>, \<^verbatim>\<open>RectangleContainer\<close>/\<^verbatim>\<open>RectangleLeaf\<close>) which
  add methods and no fields; a builder creates every node of a tree through one
  factory, so the style is kept with the builder and selects the methods.
\<close>

datatype node =
    Container (name: ustr) (icon: ustr) (children: "node list")
  | Leaf (name: ustr) (icon: ustr)

datatype style = TreeStyle | RectangleStyle

record IconFamily =
  container_icon :: ustr
  leaf_icon :: ustr

datatype error = IndexError | AttributeError | TypeError

text \<open>\<^verbatim>\<open>f"{self.icon} {self.name}"\<close>\<close>

definition label :: "node \<Rightarrow> ustr" where
  "label n = icon n @ [SPACE] @ name n"

fun node_count :: "node \<Rightarrow> nat" where
  "node_count (Leaf nm ic) = 1"
| "node_count (Container nm ic cs) = 1 + sum_list (map node_count cs)"

section \<open>The builder\<close>

record TreeBuilder =
  style_factory :: style
  icon_family :: IconFamily
  root :: "node option"

definition TreeBuilder_init :: "style \<Rightarrow> IconFamily \<Rightarrow> TreeBuilder" where
  "TreeBuilder_init sf fam = \<lparr>style_factory = sf, icon_family = fam, root = None\<rparr>"

text \<open>
  \<^verbatim>\<open>TreeBuilder.build_tree\<close>. The builder is passed and returned. \<^verbatim>\<open>self.root = node\<close>
  stores a reference to the container just created, and the children appended
  afterwards are appended to that same object: the model stores the container as it
  is when the call that captured it returns. Between the capture and the return
  \<open>root\<close> holds the container without children, so that nested calls find it set,
  and nothing reads it there.
\<close>

fun build_tree :: "TreeBuilder \<Rightarrow> json \<Rightarrow> ustr \<Rightarrow> TreeBuilder \<times> node"
and build_items :: "TreeBuilder \<Rightarrow> (ustr \<times> json) list \<Rightarrow> TreeBuilder \<times> node list" where
  "build_tree b (JObj kvs) nm =
     (let node0 = Container nm (container_icon (icon_family b)) [];
          captured = (root b = None);
          b1 = (if captured then b\<lparr>root := Some node0\<rparr> else b);
          (b2, cs) = build_items b1 kvs;
          node = Container nm (container_icon (icon_family b)) cs
      in (if captured then b2\<lparr>root := Some node\<rparr> else b2, node))"
| "build_tree b data nm =
     (b, Leaf (nm @ (if data \<noteq> JNull then ascii '': '' @ py_str data else []))
              (leaf_icon (icon_family b)))"
| "build_items b [] = (b, [])"
| "build_items b ((key, value) # rest) =
     (let (b1, child) = build_tree b value key;
          (b2, cs) = build_items b1 rest
      in (b2, child # cs))"

definition get_result :: "TreeBuilder \<Rightarrow> node option" where
  "get_result b = root b"

section \<open>Traversal\<close>

text \<open>
  \<^verbatim>\<open>CompositeIterator\<close>. The state is the stack, a Python list whose top is its last
  element: \<^verbatim>\<open>pop()\<close> removes the last element, \<^verbatim>\<open>extend\<close> appends.
  \<^verbatim>\<open>hasattr(component, 'children')\<close> holds for a container only.
\<close>

record CompositeIterator =
  stack :: "node list"

definition CompositeIterator_init :: "node list \<Rightarrow> CompositeIterator" where
  "CompositeIterator_init cs = \<lparr>stack = (if cs \<noteq> [] then rev cs else [])\<rparr>"

definition has_next :: "CompositeIterator \<Rightarrow> bool" where
  "has_next it = (length (stack it) > 0)"

definition "next" :: "CompositeIterator \<Rightarrow> node option \<times> CompositeIterator" where
  "next it =
     (if has_next it then
        (let component = last (stack it);
             st = butlast (stack it);
             st' = (case component of
                      Container nm ic cs \<Rightarrow> st @ rev cs
                    | Leaf nm ic \<Rightarrow> st)
         in (Some component, it\<lparr>stack := st'\<rparr>))
      else (None, it))"

text \<open>\<^verbatim>\<open>Container.create_iterator\<close>\<close>

definition create_iterator :: "node \<Rightarrow> CompositeIterator" where
  "create_iterator n = CompositeIterator_init (children n)"

text \<open>\<open>k\<close> calls of \<^verbatim>\<open>next()\<close> in a row: what they return, and the iterator left.\<close>

fun next_calls :: "nat \<Rightarrow> CompositeIterator \<Rightarrow> node option list \<times> CompositeIterator" where
  "next_calls 0 it = ([], it)"
| "next_calls (Suc k) it =
     (let (r, it1) = next it; (rs, it2) = next_calls k it1 in (r # rs, it2))"

text \<open>The descendants of a node in depth-first pre-order.\<close>

fun descendants :: "node \<Rightarrow> node list" where
  "descendants (Leaf nm ic) = []"
| "descendants (Container nm ic cs) = concat (map (\<lambda>c. c # descendants c) cs)"

section \<open>Tree-style rendering\<close>

text \<open>
  A draw method returns the strings it passes to \<^verbatim>\<open>print\<close>, one for each call, in
  the order of the calls; \<^verbatim>\<open>print\<close> writes the string and a line feed to the standard
  output (\<open>stdout_text\<close> below). \<open>Tree_draw\<close> is \<^verbatim>\<open>TreeLeaf.draw\<close> on a leaf and \<^verbatim>\<open>TreeContainer.draw\<close> on a
  container; \<open>Tree_draw_children\<close> is the loop over \<^verbatim>\<open>enumerate(self.children)\<close>,
  at index \<open>i\<close> of a list of \<open>n\<close> children. Neither method assigns to a node.
  Calls nest as deep as the tree; the interpreter's recursion limit is not modelled,
  here and in the builder and the rectangle style.
\<close>

function (sequential) Tree_draw :: "node \<Rightarrow> ustr \<Rightarrow> bool \<Rightarrow> ustr list"
and Tree_draw_children :: "node list \<Rightarrow> nat \<Rightarrow> nat \<Rightarrow> ustr \<Rightarrow> ustr list" where
  "Tree_draw (Leaf nm ic) indent is_last =
     (let prefix = indent @ (if is_last then CORNER else BRANCH)
      in [prefix @ label (Leaf nm ic)])"
| "Tree_draw (Container nm ic cs) indent is_last =
     (if indent = R_INDENT then Tree_draw_children cs 0 (length cs) []
      else
        (let prefix = indent @ (if is_last then CORNER else BRANCH);
             new_indent = indent @ (if is_last then BLANK_INDENT else BAR_INDENT)
         in (prefix @ label (Container nm ic cs)) # Tree_draw_children cs 0 (length cs) new_indent))"
| "Tree_draw_children [] i n new_indent = []"
| "Tree_draw_children (child # rest) i n new_indent =
     Tree_draw child new_indent (int i = int n - 1) @ Tree_draw_children rest (Suc i) n new_indent"
  by pat_completeness auto
termination
  by (relation "measure (\<lambda>x. case x of Inl (n, indent, is_last) \<Rightarrow> size n
                                    | Inr (cs, i, n, new_indent) \<Rightarrow> size_list size cs)")
     auto

section \<open>Rectangle-style rendering\<close>

text \<open>\<^verbatim>\<open>max(xs, default=d)\<close>\<close>

fun max_default :: "int list \<Rightarrow> int \<Rightarrow> int" where
  "max_default [] d = d"
| "max_default (x # xs) d = fold max xs x"

text \<open>\<^verbatim>\<open>RectangleLeaf.max_length\<close> and \<^verbatim>\<open>RectangleContainer.max_length\<close>\<close>

fun max_length :: "node \<Rightarrow> int \<Rightarrow> int" where
  "max_length (Leaf nm ic) indent_length = indent_length + int (length (label (Leaf nm ic)))"
| "max_length (Container nm ic cs) indent_length =
     (let current_length = indent_length + int (length (label (Container nm ic cs)));
          children_max_length = max_default (map (\<lambda>child. max_length child (indent_length + 3)) cs) 0
      in max current_length children_max_length)"

text \<open>\<^verbatim>\<open>RectangleLeaf.draw\<close>: the line it prints.\<close>

definition RectangleLeaf_draw :: "node \<Rightarrow> ustr \<Rightarrow> bool \<Rightarrow> int \<Rightarrow> ustr" where
  "RectangleLeaf_draw self indent is_last max_len =
     (let line_length = max_len - int (length (indent @ label self));
          prefix =
            (if is_last then
               (let indent1 = replace BAR_INDENT CLOSE_FIRST 1 indent;
                    indent2 = replace BAR_INDENT CLOSE_REST (- 1) indent1
                in if length indent2 = 0 then indent2 @ CORNER else indent2 @ CLOSE_JOIN)
             else indent @ (if is_last \<and> length indent = 0 then CORNER else BRANCH));
          postfix = str_times HBAR line_length @ (if is_last then CLOSE_POSTFIX else MID_POSTFIX)
      in prefix @ label self @ postfix)"

text \<open>
  \<^verbatim>\<open>RectangleContainer.draw\<close>, with \<^verbatim>\<open>RectangleLeaf.draw\<close> on a leaf. A call returns
  the lines printed and then either the exception raised or the node as the call
  leaves it: in the branch of \<^verbatim>\<open>indent == "r"\<close> the container removes its first
  child from its own list (\<^verbatim>\<open>self.children.pop(0)\<close>). \<^verbatim>\<open>self.children[0]\<close> raises
  \<^verbatim>\<open>IndexError\<close> on an empty list, and \<^verbatim>\<open>self.children[0].children\<close> raises
  \<^verbatim>\<open>AttributeError\<close> when the first child is a leaf, after the opening line has
  been printed. \<open>Rectangle_draw_children\<close> is the loop over \<^verbatim>\<open>enumerate\<close> of a list
  of \<open>n\<close> children, from index \<open>i\<close>; it returns the children as the calls leave
  them and stops at the first exception. The parameter \<^verbatim>\<open>max_length\<close> of the two
  draw methods is \<open>max_len\<close> here, the method \<^verbatim>\<open>max_length\<close> keeps its name.
\<close>

type_synonym 'a outcome = "ustr list \<times> (error + 'a)"

function (sequential) Rectangle_draw :: "node \<Rightarrow> ustr \<Rightarrow> bool \<Rightarrow> int \<Rightarrow> node outcome"
and Rectangle_draw_children ::
      "node list \<Rightarrow> nat \<Rightarrow> nat \<Rightarrow> ustr \<Rightarrow> bool \<Rightarrow> int \<Rightarrow> (node list) outcome" where
  "Rectangle_draw (Leaf nm ic) indent is_last max_len =
     ([RectangleLeaf_draw (Leaf nm ic) indent is_last max_len], Inr (Leaf nm ic))"
| "Rectangle_draw (Container nm ic cs) indent is_last max_len =
     (if indent = R_INDENT then
        (case cs of
           [] \<Rightarrow> ([], Inl IndexError)
         | first # rest \<Rightarrow>
             (let is_last1 = (length cs = 1);
                  max_len1 = max_length (Container nm ic cs) 0;
                  line_length = max_len1 - int (length (label first));
                  prefix = OPEN_PREFIX;
                  postfix = str_times HBAR line_length @ OPEN_POSTFIX;
                  line = prefix @ label first @ postfix;
                  new_indent = BAR_INDENT
              in (case first of
                    Leaf nm0 ic0 \<Rightarrow> ([line], Inl AttributeError)
                  | Container nm0 ic0 cs0 \<Rightarrow>
                      (case Rectangle_draw_children cs0 0 (length cs0) new_indent is_last1 max_len1 of
                         (out0, Inl e) \<Rightarrow> (line # out0, Inl e)
                       | (out0, Inr cs0') \<Rightarrow>
                           (case Rectangle_draw_children rest 0 (length rest) new_indent True max_len1 of
                              (out, Inl e) \<Rightarrow> (line # out0 @ out, Inl e)
                            | (out, Inr rest') \<Rightarrow> (line # out0 @ out, Inr (Container nm ic rest')))))))
      else
        (let line_length = max_len - int (length (indent @ label (Container nm ic cs)));
             prefix = indent @ BRANCH;
             postfix = str_times HBAR line_length @ MID_POSTFIX;
             line = prefix @ label (Container nm ic cs) @ postfix;
             new_indent = indent @ BAR_INDENT
         in (case Rectangle_draw_children cs 0 (length cs) new_indent is_last max_len of
               (out, Inl e) \<Rightarrow> (line # out, Inl e)
             | (out, Inr cs') \<Rightarrow> (line # out, Inr (Container nm ic cs')))))"
| "Rectangle_draw_children [] i n new_indent is_last max_len = ([], Inr [])"
| "Rectangle_draw_children (child # rest) i n new_indent is_last max_len =
     (case Rectangle_draw child new_indent (int i = int n - 1 \<and> is_last) max_len of
        (out1, Inl e) \<Rightarrow> (out1, Inl e)
      | (out1, Inr child') \<Rightarrow>
          (case Rectangle_draw_children rest (Suc i) n new_indent is_last max_len of
             (out2, Inl e) \<Rightarrow> (out1 @ out2, Inl e)
           | (out2, Inr rest') \<Rightarrow> (out1 @ out2, Inr (child' # rest'))))"
  by pat_completeness auto
termination
  by (relation "measure (\<lambda>x. case x of Inl (n, indent, is_last, max_len) \<Rightarrow> size n
                                    | Inr (cs, i, n, new_indent, is_last, max_len) \<Rightarrow> size_list size cs)")
     auto

section \<open>Render dispatch\<close>

text \<open>
  \<^verbatim>\<open>accept\<close> and \<^verbatim>\<open>DrawVisitor\<close>. \<^verbatim>\<open>Container.accept\<close> calls
  \<^verbatim>\<open>visit_container(self)\<close>, which calls \<^verbatim>\<open>container.draw("r", True)\<close>: the draw
  method of the container's class, chosen by the style factory that built it.
  \<^verbatim>\<open>Leaf.accept\<close> calls \<^verbatim>\<open>visit_leaf(self)\<close> without the two further arguments that
  method requires, which raises \<^verbatim>\<open>TypeError\<close>.
\<close>

definition visit_container :: "style \<Rightarrow> node \<Rightarrow> node outcome" where
  "visit_container sf container =
     (case sf of
        TreeStyle \<Rightarrow> (Tree_draw container R_INDENT True, Inr container)
      | RectangleStyle \<Rightarrow> Rectangle_draw container R_INDENT True 0)"

fun accept :: "style \<Rightarrow> node \<Rightarrow> node outcome" where
  "accept sf (Container nm ic cs) = visit_container sf (Container nm ic cs)"
| "accept sf (Leaf nm ic) = ([], Inl TypeError)"

text \<open>
  \<^verbatim>\<open>FunnyJsonExplorer.show\<close> after the file has been loaded: build, take the
  builder's result, render it. When the builder captured no root the result is
  \<^verbatim>\<open>None\<close> and \<^verbatim>\<open>root.accept\<close> raises \<^verbatim>\<open>AttributeError\<close>. The outcome holds the
  root as the render leaves it.
\<close>

definition "show" :: "TreeBuilder \<Rightarrow> json \<Rightarrow> node outcome" where
  "show builder data =
     (let (builder1, built) = build_tree builder data (ascii ''root'')
      in case get_result builder1 of
           None \<Rightarrow> ([], Inl AttributeError)
         | Some r \<Rightarrow> accept (style_factory builder1) r)"

text \<open>The icon family \<^verbatim>\<open>'default'\<close> of \<^verbatim>\<open>load_icon_families\<close>: \<^verbatim>\<open>IconFamily('', '')\<close>.\<close>

definition default_icons :: IconFamily where
  "default_icons = \<lparr>container_icon = [], leaf_icon = []\<rparr>"

section \<open>Notions used to state the properties\<close>

text \<open>
  What an iterator has still to return: each node on the stack with its descendants,
  the top of the stack first.
\<close>

definition pending :: "CompositeIterator \<Rightarrow> node list" where
  "pending it = concat (map (\<lambda>c. c # descendants c) (rev (stack it)))"

text \<open>
  What the \<^verbatim>\<open>print\<close> calls write to the standard output: each string followed by a
  line feed. The output lines are counted by their line feeds, so a string that
  holds a line feed itself makes more than one line. A node has no line feed when
  its label, icon and name, holds none.
\<close>

definition LF :: nat where "LF = 10"

definition stdout_text :: "ustr list \<Rightarrow> ustr" where
  "stdout_text printed = concat (map (\<lambda>s. s @ [LF]) printed)"

definition output_lines :: "ustr list \<Rightarrow> nat" where
  "output_lines printed = length (filter (\<lambda>c. c = LF) (stdout_text printed))"

definition no_line_feed :: "node \<Rightarrow> bool" where
  "no_line_feed n = (LF \<notin> set (label n))"

text \<open>A printed string is the one of a node when it ends with the node's label.\<close>

definition printed_for :: "ustr \<Rightarrow> node \<Rightarrow> bool" where
  "printed_for line n = (drop (length line - length (label n)) line = label n)"

text \<open>
  Two renders of the same root object, one after the other: the lines of the first
  and the lines of the second, which starts from the root as the first left it.
  \<open>None\<close> when the first render raises.
\<close>

definition render_twice :: "style \<Rightarrow> node \<Rightarrow> (ustr list \<times> ustr list) option" where
  "render_twice sf r =
     (case accept sf r of
        (out1, Inl e) \<Rightarrow> None
      | (out1, Inr r1) \<Rightarrow> Some (out1, fst (accept sf r1)))"

section \<open>Evaluation rules\<close>

declare digits.simps [simp del]

lemmas glyph_defs = SPACE_def HBAR_def VBAR_def TOPLEFT_def TOPRIGHT_def BOTLEFT_def
  BOTRIGHT_def TEE_RIGHT_def TEE_LEFT_def TEE_UP_def

lemmas literal_defs = R_INDENT_def CORNER_def BRANCH_def BLANK_INDENT_def BAR_INDENT_def
  OPEN_PREFIX_def OPEN_POSTFIX_def MID_POSTFIX_def CLOSE_POSTFIX_def CLOSE_FIRST_def
  CLOSE_REST_def CLOSE_JOIN_def

lemma replicate_numeral_Cons: "replicate (numeral k) x = x # replicate (pred_numeral k) x"
  by (simp add: numeral_eq_Suc)

lemmas draw_eval = replicate_numeral_Cons show_def visit_container_def RectangleLeaf_draw_def
  label_def str_times_def literal_defs glyph_defs

section \<open>The builder: order, names and the captured root\<close>

lemma ascii_simps [simp]: "ascii [] = []" "ascii (c # s) = of_char c # ascii s"
  by (simp_all add: ascii_def)

lemma build_tree_JObj:
  "build_tree b (JObj kvs) nm =
     (let b1 = (if root b = None
                then b\<lparr>root := Some (Container nm (container_icon (icon_family b)) [])\<rparr> else b);
          r = build_items b1 kvs;
          node = Container nm (container_icon (icon_family b)) (snd r)
      in (if root b = None then (fst r)\<lparr>root := Some node\<rparr> else fst r, node))"
  by (simp add: Let_def split_beta)

lemma build_items_Cons:
  "build_items b ((key, v) # rest) =
     (let r1 = build_tree b v key; r2 = build_items (fst r1) rest
      in (fst r2, snd r1 # snd r2))"
  by (simp add: Let_def split_beta)

declare build_tree.simps(1) [simp del] build_items.simps(2) [simp del]

lemmas build_eval = build_tree_JObj build_items_Cons Let_def TreeBuilder_init_def default_icons_def
  str_int_def digits.simps get_result_def

lemma build_tree_icon_family:
  "icon_family (fst (build_tree b d nm)) = icon_family b"
  "icon_family (fst (build_items b kvs)) = icon_family b"
proof (induction b d nm and b kvs rule: build_tree_build_items.induct)
  case (1 b kvs nm)
  from "1.IH"[OF refl refl refl] show ?case
    by (auto simp add: build_tree_JObj Let_def split: if_splits)
next
  case (4 b key "value" rest)
  from "4.IH"(1) "4.IH"(2)[OF refl prod.collapse] show ?case
    by (simp add: build_items_Cons Let_def)
qed simp_all

lemma build_tree_root_kept:
  "root b \<noteq> None \<Longrightarrow> root (fst (build_tree b d nm)) = root b"
  "root b \<noteq> None \<Longrightarrow> root (fst (build_items b kvs)) = root b"
proof (induction b d nm and b kvs rule: build_tree_build_items.induct)
  case (1 b kvs nm)
  from "1.IH"[OF refl refl refl] "1.prems" show ?case
    by (auto simp add: build_tree_JObj Let_def)
next
  case (4 b key "value" rest)
  from "4.IH"(1) "4.IH"(2)[OF refl prod.collapse] "4.prems" show ?case
    by (simp add: build_items_Cons Let_def)
qed simp_all

lemma build_tree_node_indep:
  "icon_family b' = icon_family b \<Longrightarrow> snd (build_tree b' d nm) = snd (build_tree b d nm)"
  "icon_family b' = icon_family b \<Longrightarrow> snd (build_items b' kvs) = snd (build_items b kvs)"
proof (induction b d nm and b kvs arbitrary: b' and b' rule: build_tree_build_items.induct)
  case (1 b kvs nm)
  have "snd (build_items (if root b' = None then b'\<lparr>root := Some (Container nm (container_icon (icon_family b')) [])\<rparr> else b') kvs)
      = snd (build_items (if root b = None then b\<lparr>root := Some (Container nm (container_icon (icon_family b)) [])\<rparr> else b) kvs)"
    by (rule "1.IH") (simp_all add: "1.prems")
  then show ?case
    by (simp add: build_tree_JObj Let_def "1.prems")
next
  case (4 b key "value" rest)
  have a: "snd (build_tree b' value key) = snd (build_tree b value key)"
    by (rule "4.IH"(1)) (rule "4.prems")
  have "snd (build_items (fst (build_tree b' value key)) rest)
      = snd (build_items (fst (build_tree b value key)) rest)"
    by (rule "4.IH"(2)[OF refl prod.collapse]) (simp add: build_tree_icon_family "4.prems")
  with a show ?case
    by (simp add: build_items_Cons Let_def)
qed simp_all

lemma build_items_nodes:
  "snd (build_items b kvs) = map (\<lambda>(key, v). snd (build_tree b v key)) kvs"
proof (induction kvs arbitrary: b)
  case Nil
  show ?case by simp
next
  case (Cons kv kvs)
  obtain key v where kv: "kv = (key, v)" by (cases kv)
  have "snd (build_items (fst (build_tree b v key)) kvs) = snd (build_items b kvs)"
    by (rule build_tree_node_indep(2)) (rule build_tree_icon_family(1))
  then show ?case
    by (simp add: kv Cons.IH build_items_Cons Let_def)
qed

lemma build_tree_children:
  "snd (build_tree b (JObj kvs) nm) =
     Container nm (container_icon (icon_family b)) (map (\<lambda>(key, v). snd (build_tree b v key)) kvs)"
proof -
  let ?b1 = "if root b = None then b\<lparr>root := Some (Container nm (container_icon (icon_family b)) [])\<rparr> else b"
  have "snd (build_items ?b1 kvs) = snd (build_items b kvs)"
    by (rule build_tree_node_indep(2)) simp
  then show ?thesis
    by (simp add: build_tree_JObj Let_def build_items_nodes)
qed

lemma build_tree_root_captured:
  "root b = None \<Longrightarrow> root (fst (build_tree b (JObj kvs) nm)) = Some (snd (build_tree b (JObj kvs) nm))"
  by (simp add: build_tree_JObj Let_def)

lemma build_tree_style_factory:
  "style_factory (fst (build_tree b d nm)) = style_factory b"
  "style_factory (fst (build_items b kvs)) = style_factory b"
proof (induction b d nm and b kvs rule: build_tree_build_items.induct)
  case (1 b kvs nm)
  from "1.IH"[OF refl refl refl] show ?case
    by (auto simp add: build_tree_JObj Let_def split: if_splits)
next
  case (4 b key "value" rest)
  from "4.IH"(1) "4.IH"(2)[OF refl prod.collapse] show ?case
    by (simp add: build_items_Cons Let_def)
qed simp_all

lemma build_tree_result:
  assumes h: "get_result (fst (build_tree (TreeBuilder_init sf fam) data nm)) = Some r"
  shows "\<exists>kvs. data = JObj kvs \<and>
       r = Container nm (container_icon fam)
             (map (\<lambda>(key, v). snd (build_tree (TreeBuilder_init sf fam) v key)) kvs)"
proof (cases data)
  case (JObj kvs)
  have "root (TreeBuilder_init sf fam) = None" by (simp add: TreeBuilder_init_def)
  from build_tree_root_captured[OF this, of kvs nm]
  have "get_result (fst (build_tree (TreeBuilder_init sf fam) (JObj kvs) nm)) =
          Some (Container nm (container_icon fam)
             (map (\<lambda>(key, v). snd (build_tree (TreeBuilder_init sf fam) v key)) kvs))"
    unfolding get_result_def build_tree_children by (simp add: TreeBuilder_init_def)
  with h show ?thesis by (simp add: JObj)
qed (use h in \<open>simp_all add: get_result_def TreeBuilder_init_def\<close>)

text \<open>
  Claim C6. A container built from a mapping has one child for each key, in the
  mapping's iteration order: the child at index \<open>i\<close> is the node built from the
  \<open>i\<close>-th key and its value. The builder passed to the nested call differs from
  \<open>b\<close> in \<open>root\<close> only, which the node built does not depend on, so any builder
  \<open>b'\<close> with the same icon family builds that child. The mapping, the name and the
  builder are arbitrary, so this holds for the mappings at every depth.
\<close>

theorem build_tree_order:
  assumes "i < length kvs" and "icon_family b' = icon_family b"
  shows "length (children (snd (build_tree b (JObj kvs) nm))) = length kvs \<and>
         children (snd (build_tree b (JObj kvs) nm)) ! i =
           snd (build_tree b' (snd (kvs ! i)) (fst (kvs ! i)))"
proof -
  have "snd (build_tree b (snd (kvs ! i)) (fst (kvs ! i))) = snd (build_tree b' (snd (kvs ! i)) (fst (kvs ! i)))"
    by (rule build_tree_node_indep(1)[symmetric]) (rule assms(2))
  with assms(1) show ?thesis
    by (simp add: build_tree_children split_beta)
qed

theorem build_tree_order_witness:
  "children (snd (build_tree (TreeBuilder_init TreeStyle default_icons)
      (JObj [(ascii ''name'', JStr (ascii ''Alice'')), (ascii ''age'', JInt 30)]) (ascii ''root''))) ! 1
   = Leaf (ascii ''age: 30'') []"
  using build_tree_order [of 1 "[(ascii ''name'', JStr (ascii ''Alice'')), (ascii ''age'', JInt 30)]"
      "TreeBuilder_init TreeStyle default_icons" "TreeBuilder_init TreeStyle default_icons" "ascii ''root''"]
  by (simp add: build_eval)

text \<open>
  Claim C7. For a key and a decoded value that is not a mapping the builder returns
  a leaf whose name is the key followed by \<^verbatim>\<open>": "\<close> and \<^verbatim>\<open>str\<close> of the value, and
  the key alone when the value is \<^verbatim>\<open>None\<close>. The witness is the pair of examples of
  the specification: \<^verbatim>\<open>"age"\<close> with 30, and \<^verbatim>\<open>"nickname"\<close> with null.
\<close>

theorem build_tree_leaf_name:
  assumes "\<not> is_dict v"
  shows "snd (build_tree b v key) =
           Leaf (key @ (if v = JNull then [] else ascii '': '' @ py_str v)) (leaf_icon (icon_family b))"
  using assms by (cases v) simp_all

theorem build_tree_leaf_name_witness:
  "snd (build_tree (TreeBuilder_init TreeStyle default_icons) (JInt 30) (ascii ''age''))
     = Leaf (ascii ''age: 30'') [] \<and>
   snd (build_tree (TreeBuilder_init TreeStyle default_icons) JNull (ascii ''nickname''))
     = Leaf (ascii ''nickname'') []"
  using build_tree_leaf_name [of "JInt 30" "TreeBuilder_init TreeStyle default_icons" "ascii ''age''"]
        build_tree_leaf_name [of JNull "TreeBuilder_init TreeStyle default_icons" "ascii ''nickname''"]
  by (simp add: build_eval)

text \<open>
  Claim C4 says that the captured root is a container named \<^verbatim>\<open>"root"\<close> for every
  decoded value. For the top-level value 5 the first call returns the leaf
  \<^verbatim>\<open>"root: 5"\<close> and captures nothing, and the same holds for null: \<open>root\<close> is
  assigned in the branch for mappings only.
\<close>

theorem build_tree_root_scalar:
  "get_result (fst (build_tree (TreeBuilder_init TreeStyle default_icons) (JInt 5) (ascii ''root''))) = None \<and>
   snd (build_tree (TreeBuilder_init TreeStyle default_icons) (JInt 5) (ascii ''root'')) = Leaf (ascii ''root: 5'') [] \<and>
   get_result (fst (build_tree (TreeBuilder_init TreeStyle default_icons) JNull (ascii ''root''))) = None"
  by (simp add: build_eval)

text \<open>
  Claim C4, amended. For every decoded mapping passed to the first call of a new
  builder, the captured result is a container named \<^verbatim>\<open>"root"\<close>, with the container
  icon and the children built from the mapping's items.
\<close>

theorem build_tree_root_mapping:
  "get_result (fst (build_tree (TreeBuilder_init sf fam) (JObj kvs) (ascii ''root''))) =
     Some (Container (ascii ''root'') (container_icon fam)
             (map (\<lambda>(key, v). snd (build_tree (TreeBuilder_init sf fam) v key)) kvs))"
proof -
  have "root (TreeBuilder_init sf fam) = None" by (simp add: TreeBuilder_init_def)
  from build_tree_root_captured[OF this] show ?thesis
    unfolding get_result_def build_tree_children by (simp add: TreeBuilder_init_def)
qed

section \<open>Traversal: exhaustion\<close>

lemma descendants_count: "length (descendants n) + 1 = node_count n"
proof (induction n)
  case (Container nm ic cs)
  have "length (concat (map (\<lambda>c. c # descendants c) cs)) = sum_list (map node_count cs)"
    using Container.IH by (induction cs) auto
  then show ?case by simp
next
  case (Leaf nm ic)
  show ?case by simp
qed

lemma pending_create_iterator:
  "pending (create_iterator (Container nm ic cs)) = descendants (Container nm ic cs)"
  by (simp add: pending_def create_iterator_def CompositeIterator_init_def)

lemma has_next_pending: "has_next it = (pending it \<noteq> [])"
proof (cases "stack it" rule: rev_cases)
  case Nil
  then show ?thesis by (simp add: has_next_def pending_def)
next
  case (snoc ys x)
  then show ?thesis by (simp add: has_next_def pending_def)
qed

lemma next_exhausted: "\<not> has_next it \<Longrightarrow> next it = (None, it)"
  by (simp add: next_def)

lemma next_step:
  assumes "has_next it"
  shows "fst (next it) = Some (hd (pending it))"
    and "pending (snd (next it)) = tl (pending it)"
proof -
  from assms obtain ys x where st: "stack it = ys @ [x]"
    by (cases "stack it" rule: rev_cases) (auto simp: has_next_def)
  show "fst (next it) = Some (hd (pending it))"
    using assms st by (simp add: next_def pending_def Let_def)
  show "pending (snd (next it)) = tl (pending it)"
    using assms st by (cases x) (simp_all add: next_def pending_def Let_def)
qed

lemma next_calls_pending:
  "fst (next_calls k it) = map Some (take k (pending it)) @ replicate (k - length (pending it)) None"
  "pending (snd (next_calls k it)) = drop k (pending it)"
proof (induction k arbitrary: it)
  case 0
  { case 1 show ?case by simp }
  { case 2 show ?case by simp }
next
  case (Suc k)
  { case 1
    show ?case
    proof (cases "has_next it")
      case True
      then have ne: "pending it \<noteq> []" by (simp add: has_next_pending)
      from next_step[OF True] Suc.IH(1)[of "snd (next it)"] ne show ?thesis
        by (cases "pending it") (simp_all add: split_beta)
    next
      case False
      then have e: "pending it = []" by (simp add: has_next_pending)
      from next_exhausted[OF False] Suc.IH(1)[of it] e show ?thesis
        by (simp add: split_beta)
    qed }
  { case 2
    show ?case
    proof (cases "has_next it")
      case True
      then have ne: "pending it \<noteq> []" by (simp add: has_next_pending)
      from next_step[OF True] Suc.IH(2)[of "snd (next it)"] ne show ?thesis
        by (cases "pending it") (simp_all add: split_beta drop_Suc)
    next
      case False
      then have e: "pending it = []" by (simp add: has_next_pending)
      from next_exhausted[OF False] Suc.IH(2)[of it] e show ?thesis
        by (simp add: split_beta)
    qed }
qed

text \<open>
  Claim C8. Let \<open>K\<close> be the number of descendants of a container, which is its
  node count less one. Of \<open>k\<close> calls of \<^verbatim>\<open>next()\<close> on a new iterator, the first
  \<open>K\<close> return the descendants in depth-first pre-order and every later one
  returns \<^verbatim>\<open>None\<close>; after \<open>k\<close> calls \<^verbatim>\<open>has_next()\<close> is true exactly when \<open>k\<close> is
  less than \<open>K\<close>, so it is false from the \<open>K\<close>-th call on. No call raises: \<open>next\<close>
  has no error result.
\<close>

theorem iterator_exhaustion:
  "fst (next_calls k (create_iterator (Container nm ic cs))) =
     map Some (take k (descendants (Container nm ic cs))) @
     replicate (k - length (descendants (Container nm ic cs))) None \<and>
   has_next (snd (next_calls k (create_iterator (Container nm ic cs)))) =
     (k < length (descendants (Container nm ic cs))) \<and>
   length (descendants (Container nm ic cs)) = node_count (Container nm ic cs) - 1"
proof -
  let ?c = "Container nm ic cs"
  have count: "length (descendants ?c) = node_count ?c - 1"
    using descendants_count[of ?c] by simp
  have calls: "fst (next_calls k (create_iterator ?c)) =
      map Some (take k (descendants ?c)) @ replicate (k - length (descendants ?c)) None"
    by (simp only: next_calls_pending pending_create_iterator)
  have "pending (snd (next_calls k (create_iterator ?c))) = drop k (descendants ?c)"
    by (simp only: next_calls_pending pending_create_iterator)
  then have more: "has_next (snd (next_calls k (create_iterator ?c))) = (k < length (descendants ?c))"
    by (simp only: has_next_pending) auto
  from calls more count show ?thesis by (intro conjI)
qed

theorem iterator_exhaustion_witness:
  "fst (next_calls 5 (create_iterator
      (Container (ascii ''root'') []
         [Container (ascii ''a'') [] [Leaf (ascii ''b: 1'') []], Leaf (ascii ''c: 2'') []]))) =
     [Some (Container (ascii ''a'') [] [Leaf (ascii ''b: 1'') []]),
      Some (Leaf (ascii ''b: 1'') []), Some (Leaf (ascii ''c: 2'') []), None, None] \<and>
   \<not> has_next (snd (next_calls 3 (create_iterator
      (Container (ascii ''root'') []
         [Container (ascii ''a'') [] [Leaf (ascii ''b: 1'') []], Leaf (ascii ''c: 2'') []]))))"
  using iterator_exhaustion [of 5 "ascii ''root''" "[]"
          "[Container (ascii ''a'') [] [Leaf (ascii ''b: 1'') []], Leaf (ascii ''c: 2'') []]"]
        iterator_exhaustion [of 3 "ascii ''root''" "[]"
          "[Container (ascii ''a'') [] [Leaf (ascii ''b: 1'') []], Leaf (ascii ''c: 2'') []]"]
  by (simp add: replicate_numeral_Cons)

section \<open>Indents\<close>

lemma length_R_INDENT: "length R_INDENT = 1"
  by (simp add: R_INDENT_def)

lemma length_BAR_INDENT: "length BAR_INDENT = 4"
  by (simp add: BAR_INDENT_def)

lemma length_BLANK_INDENT: "length BLANK_INDENT = 4"
  by (simp add: BLANK_INDENT_def)

lemma not_R_INDENT: "length s \<noteq> 1 \<Longrightarrow> s \<noteq> R_INDENT"
  using length_R_INDENT by auto

lemma child_indent_not_r [simp]:
  "[] \<noteq> R_INDENT" "BAR_INDENT \<noteq> R_INDENT"
  "indent @ BLANK_INDENT \<noteq> R_INDENT" "indent @ BAR_INDENT \<noteq> R_INDENT"
  by (rule not_R_INDENT, simp add: length_BAR_INDENT length_BLANK_INDENT)+

section \<open>Tree style: one line for each node below the root\<close>

lemma Tree_draw_count:
  "indent \<noteq> R_INDENT \<Longrightarrow> length (Tree_draw n indent is_last) = node_count n"
  "new_indent \<noteq> R_INDENT \<Longrightarrow>
     length (Tree_draw_children cs i k new_indent) = sum_list (map node_count cs)"
  by (induction n indent is_last and cs i k new_indent rule: Tree_draw_Tree_draw_children.induct)
     (simp_all add: Let_def)

lemma Tree_draw_root_count:
  "length (Tree_draw (Container nm ic cs) R_INDENT is_last) = node_count (Container nm ic cs) - 1"
  by (simp add: Tree_draw_count)


lemma printed_for_append [simp]: "printed_for (p @ label n) n"
  by (simp add: printed_for_def)

lemma Tree_draw_lines:
  "indent \<noteq> R_INDENT \<Longrightarrow>
     list_all2 printed_for (Tree_draw n indent is_last) (n # descendants n)"
  "new_indent \<noteq> R_INDENT \<Longrightarrow>
     list_all2 printed_for (Tree_draw_children cs i k new_indent)
       (concat (map (\<lambda>c. c # descendants c) cs))"
proof (induction n indent is_last and cs i k new_indent rule: Tree_draw_Tree_draw_children.induct)
  case (1 nm ic indent is_last)
  show ?case using printed_for_append[of "indent @ (if is_last then CORNER else BRANCH)" "Leaf nm ic"]
    by (simp add: Let_def)
next
  case (2 nm ic cs indent is_last)
  let ?new = "indent @ (if is_last then BLANK_INDENT else BAR_INDENT)"
  have "?new \<noteq> R_INDENT" by simp
  then have "list_all2 printed_for (Tree_draw_children cs 0 (length cs) ?new)
       (concat (map (\<lambda>c. c # descendants c) cs))"
    by (intro "2.IH"(2)[OF "2.prems" refl refl])
  with "2.prems" printed_for_append[of "indent @ (if is_last then CORNER else BRANCH)" "Container nm ic cs"]
  show ?case
    by (simp add: Let_def)
next
  case (3 i n new_indent)
  show ?case by simp
next
  case (4 child rest i n new_indent)
  from list_all2_appendI[OF "4.IH"(1)[OF "4.prems"] "4.IH"(2)[OF "4.prems"]] show ?case
    by simp
qed

lemma Tree_draw_root_lines:
  "list_all2 printed_for (Tree_draw (Container nm ic cs) R_INDENT is_last)
     (descendants (Container nm ic cs))"
  using Tree_draw_lines(2)[of "[]" cs 0 "length cs"] by simp

lemma show_built:
  assumes "get_result (fst (build_tree (TreeBuilder_init sf fam) data (ascii ''root''))) = Some r"
  shows "show (TreeBuilder_init sf fam) data = visit_container sf r"
proof -
  from build_tree_result[OF assms] obtain cs where r: "r = Container (ascii ''root'') (container_icon fam) cs"
    by blast
  have "style_factory (fst (build_tree (TreeBuilder_init sf fam) data (ascii ''root''))) = sf"
    by (simp add: build_tree_style_factory TreeBuilder_init_def)
  with assms show ?thesis
    by (simp add: show_def split_beta r del: ascii_simps)
qed

lemma output_lines_Nil [simp]: "output_lines [] = 0"
  by (simp add: output_lines_def stdout_text_def)

lemma output_lines_append [simp]:
  "output_lines (xs @ ys) = output_lines xs + output_lines ys"
  by (simp add: output_lines_def stdout_text_def)

lemma output_lines_Cons:
  "output_lines (s # xs) = length (filter (\<lambda>c. c = LF) s) + 1 + output_lines xs"
  by (simp add: output_lines_def stdout_text_def)

lemma output_lines_one:
  "LF \<notin> set p \<Longrightarrow> no_line_feed n \<Longrightarrow> output_lines ((p @ label n) # xs) = 1 + output_lines xs"
proof -
  assume "LF \<notin> set p" "no_line_feed n"
  then have "filter (\<lambda>c. c = LF) (p @ label n) = []"
    by (auto simp add: no_line_feed_def filter_empty_conv)
  then show ?thesis by (simp add: output_lines_Cons del: filter_append)
qed

lemma LF_not_in_literals [simp]:
  "LF \<notin> set CORNER" "LF \<notin> set BRANCH" "LF \<notin> set BLANK_INDENT" "LF \<notin> set BAR_INDENT"
  by (simp_all add: LF_def literal_defs glyph_defs)

lemma Tree_draw_output_lines:
  "indent \<noteq> R_INDENT \<Longrightarrow> LF \<notin> set indent \<Longrightarrow> list_all no_line_feed (n # descendants n) \<Longrightarrow>
     output_lines (Tree_draw n indent is_last) = node_count n"
  "new_indent \<noteq> R_INDENT \<Longrightarrow> LF \<notin> set new_indent \<Longrightarrow>
     list_all no_line_feed (concat (map (\<lambda>c. c # descendants c) cs)) \<Longrightarrow>
     output_lines (Tree_draw_children cs i k new_indent) = sum_list (map node_count cs)"
proof (induction n indent is_last and cs i k new_indent rule: Tree_draw_Tree_draw_children.induct)
  case (1 nm ic indent is_last)
  from "1.prems" have "output_lines (((indent @ (if is_last then CORNER else BRANCH)) @ label (Leaf nm ic)) # []) = 1 + output_lines []"
    by (intro output_lines_one) simp_all
  then show ?case by (simp add: Let_def)
next
  case (2 nm ic cs indent is_last)
  let ?new = "indent @ (if is_last then BLANK_INDENT else BAR_INDENT)"
  let ?rest = "Tree_draw_children cs 0 (length cs) ?new"
  from "2.prems" have "output_lines ?rest = sum_list (map node_count cs)"
    by (intro "2.IH"(2)[OF "2.prems"(1) refl refl]) simp_all
  moreover from "2.prems"
  have "output_lines (((indent @ (if is_last then CORNER else BRANCH)) @ label (Container nm ic cs)) # ?rest)
          = 1 + output_lines ?rest"
    by (intro output_lines_one) simp_all
  ultimately show ?case using "2.prems"(1)
    by (simp add: Let_def)
next
  case (3 i n new_indent)
  show ?case by simp
next
  case (4 child rest i n new_indent)
  from "4.prems" have "output_lines (Tree_draw child new_indent (int i = int n - 1)) = node_count child"
    by (intro "4.IH"(1)) simp_all
  moreover from "4.prems" have "output_lines (Tree_draw_children rest (Suc i) n new_indent) = sum_list (map node_count rest)"
    by (intro "4.IH"(2)) simp_all
  ultimately show ?case by simp
qed

lemma Tree_draw_root_output_lines:
  assumes "list_all no_line_feed (descendants (Container nm ic cs))"
  shows "output_lines (Tree_draw (Container nm ic cs) R_INDENT is_last) = node_count (Container nm ic cs) - 1"
  using Tree_draw_output_lines(2)[of "[]" cs 0 "length cs"] assms by simp

text \<open>
  Claim C5 says that a tree with \<open>N\<close> nodes below the root is rendered in exactly
  \<open>N\<close> output lines. The decoded document \<^verbatim>\<open>{"a\nb": 1}\<close>, whose one key holds a
  line feed, builds a root with one leaf, so \<open>N\<close> is 1; the leaf's name holds the
  line feed, \<^verbatim>\<open>print\<close> is called once and writes two lines.
\<close>

theorem tree_style_line_feed_in_name:
  "get_result (fst (build_tree (TreeBuilder_init TreeStyle default_icons)
       (JObj [(ascii ''a'' @ [LF] @ ascii ''b'', JInt 1)]) (ascii ''root''))) =
     Some (Container (ascii ''root'') [] [Leaf (ascii ''a'' @ [LF] @ ascii ''b: 1'') []]) \<and>
   show (TreeBuilder_init TreeStyle default_icons) (JObj [(ascii ''a'' @ [LF] @ ascii ''b'', JInt 1)]) =
     ([CORNER @ ascii '' a'' @ [LF] @ ascii ''b: 1''],
      Inr (Container (ascii ''root'') [] [Leaf (ascii ''a'' @ [LF] @ ascii ''b: 1'') []])) \<and>
   node_count (Container (ascii ''root'') [] [Leaf (ascii ''a'' @ [LF] @ ascii ''b: 1'') []]) - 1 = 1 \<and>
   output_lines (fst (show (TreeBuilder_init TreeStyle default_icons)
       (JObj [(ascii ''a'' @ [LF] @ ascii ''b'', JInt 1)]))) = 2"
  by (simp add: build_eval draw_eval output_lines_def stdout_text_def LF_def)

text \<open>
  Claim C5, amended. When the builder, created for the tree style, has captured
  the root \<open>r\<close> of the tree built from a decoded value, and no node below \<open>r\<close> has
  a line feed in its name or icon, rendering raises nothing and writes exactly as
  many output lines as \<open>r\<close> has nodes below it: the root prints nothing, and each
  other container and each leaf is printed by one call, in pre-order, the \<open>k\<close>-th
  string ending with the label of the \<open>k\<close>-th descendant.
\<close>

theorem tree_style_line_count:
  assumes "get_result (fst (build_tree (TreeBuilder_init TreeStyle fam) data (ascii ''root''))) = Some r"
      and "list_all no_line_feed (descendants r)"
  shows "show (TreeBuilder_init TreeStyle fam) data = (Tree_draw r R_INDENT True, Inr r) \<and>
         output_lines (Tree_draw r R_INDENT True) = node_count r - 1 \<and>
         length (Tree_draw r R_INDENT True) = node_count r - 1 \<and>
         list_all2 printed_for (Tree_draw r R_INDENT True) (descendants r)"
proof -
  from build_tree_result[OF assms(1)] obtain cs where r: "r = Container (ascii ''root'') (container_icon fam) cs"
    by blast
  have "show (TreeBuilder_init TreeStyle fam) data = (Tree_draw r R_INDENT True, Inr r)"
    unfolding show_built[OF assms(1)] by (simp add: visit_container_def)
  moreover have "output_lines (Tree_draw r R_INDENT True) = node_count r - 1"
    using assms(2) unfolding r by (rule Tree_draw_root_output_lines)
  moreover have "length (Tree_draw r R_INDENT True) = node_count r - 1"
    unfolding r by (rule Tree_draw_root_count)
  moreover have "list_all2 printed_for (Tree_draw r R_INDENT True) (descendants r)"
    unfolding r by (rule Tree_draw_root_lines)
  ultimately show ?thesis by (intro conjI)
qed

theorem tree_style_line_count_witness:
  "show (TreeBuilder_init TreeStyle default_icons) (JObj [(ascii ''a'', JObj [(ascii ''b'', JInt 1)])]) =
     ([CORNER @ ascii '' a'', BLANK_INDENT @ CORNER @ ascii '' b: 1''],
      Inr (Container (ascii ''root'') [] [Container (ascii ''a'') [] [Leaf (ascii ''b: 1'') []]])) \<and>
   node_count (Container (ascii ''root'') [] [Container (ascii ''a'') [] [Leaf (ascii ''b: 1'') []]]) - 1 = 2 \<and>
   output_lines [CORNER @ ascii '' a'', BLANK_INDENT @ CORNER @ ascii '' b: 1''] = 2"
  using tree_style_line_count [of default_icons "JObj [(ascii ''a'', JObj [(ascii ''b'', JInt 1)])]"
      "Container (ascii ''root'') [] [Container (ascii ''a'') [] [Leaf (ascii ''b: 1'') []]]"]
  by (simp add: build_eval draw_eval output_lines_def stdout_text_def LF_def no_line_feed_def)

text \<open>
  Claim C10. For the root \<open>r\<close> captured by a builder created for the tree style,
  two renders one after the other both succeed and print the same strings, those of
  \<^verbatim>\<open>draw("r", True)\<close> on \<open>r\<close>: the first render leaves \<open>r\<close> as it was.
\<close>

theorem tree_render_repeatable:
  assumes "get_result (fst (build_tree (TreeBuilder_init TreeStyle fam) data (ascii ''root''))) = Some r"
  shows "render_twice TreeStyle r = Some (Tree_draw r R_INDENT True, Tree_draw r R_INDENT True)"
proof -
  from build_tree_result[OF assms] obtain cs where r: "r = Container (ascii ''root'') (container_icon fam) cs"
    by blast
  show ?thesis
    by (simp add: render_twice_def visit_container_def r del: Tree_draw.simps ascii_simps)
qed

theorem tree_render_repeatable_witness:
  "render_twice TreeStyle (Container (ascii ''root'') [] [Container (ascii ''a'') [] [Leaf (ascii ''b: 1'') []]]) =
     Some ([CORNER @ ascii '' a'', BLANK_INDENT @ CORNER @ ascii '' b: 1''],
           [CORNER @ ascii '' a'', BLANK_INDENT @ CORNER @ ascii '' b: 1''])"
  using tree_render_repeatable [of default_icons "(JObj [(ascii ''a'', JObj [(ascii ''b'', JInt 1)])])" "(Container (ascii ''root'') [] [Container (ascii ''a'') [] [Leaf (ascii ''b: 1'') []]])"]
  by (simp add: build_eval draw_eval)

section \<open>Rectangle style: what a render changes\<close>

lemma Rectangle_draw_inner:
  "indent \<noteq> R_INDENT \<Longrightarrow> snd (Rectangle_draw n indent is_last max_len) = Inr n"
  "new_indent \<noteq> R_INDENT \<Longrightarrow>
     snd (Rectangle_draw_children cs i k new_indent is_last max_len) = Inr cs"
proof (induction n indent is_last max_len and cs i k new_indent is_last max_len
       rule: Rectangle_draw_Rectangle_draw_children.induct)
  case (1 nm ic indent is_last max_len)
  show ?case by simp
next
  case (2 nm ic cs indent is_last max_len)
  from "2.prems" have "snd (Rectangle_draw_children cs 0 (length cs) (indent @ BAR_INDENT) is_last max_len) = Inr cs"
    by (intro "2.IH"(3)[OF _ refl refl refl refl refl]) simp_all
  with "2.prems" show ?case
    by (auto simp add: Let_def split: prod.splits sum.splits)
next
  case (3 i n new_indent is_last max_len)
  show ?case by simp
next
  case (4 child rest i n new_indent is_last max_len)
  from "4.IH"(1)[OF "4.prems"]
  have c: "snd (Rectangle_draw child new_indent (int i = int n - 1 \<and> is_last) max_len) = Inr child" .
  have "snd (Rectangle_draw_children rest (Suc i) n new_indent is_last max_len) = Inr rest"
    by (rule "4.IH"(2)[OF prod.collapse c "4.prems"])
  with c show ?case
    by (auto split: prod.splits sum.splits)
qed

text \<open>
  The outcome of \<^verbatim>\<open>draw("r", ...)\<close> on a container, by its first child: the draw
  completes exactly when the first child is a container, and then the first child
  is gone and nothing else has changed.
\<close>

lemma Rectangle_draw_root_outcome:
  "snd (Rectangle_draw (Container nm ic cs) R_INDENT is_last max_len) =
     (case cs of
        [] \<Rightarrow> Inl IndexError
      | Leaf nm0 ic0 # rest \<Rightarrow> Inl AttributeError
      | Container nm0 ic0 cs0 # rest \<Rightarrow> Inr (Container nm ic rest))"
proof (cases cs)
  case Nil
  then show ?thesis by simp
next
  case (Cons first rest)
  show ?thesis
  proof (cases first)
    case (Leaf nm0 ic0)
    with Cons show ?thesis by (simp add: Let_def)
  next
    case (Container nm0 ic0 cs0)
    let ?m = "max_length (Container nm ic cs) 0"
    have "snd (Rectangle_draw_children cs0 0 (length cs0) BAR_INDENT (length cs = 1) ?m) = Inr cs0"
      and "snd (Rectangle_draw_children rest 0 (length rest) BAR_INDENT True ?m) = Inr rest"
      by (rule Rectangle_draw_inner(2), simp)+
    with Cons Container show ?thesis
      by (auto simp add: Let_def split: prod.splits sum.splits)
  qed
qed

lemma Rectangle_draw_root:
  assumes "Rectangle_draw (Container nm ic cs) R_INDENT is_last max_len = (out, Inr r')"
  shows "r' = Container nm ic (tl cs)"
proof -
  from assms have "snd (Rectangle_draw (Container nm ic cs) R_INDENT is_last max_len) = Inr r'"
    by simp
  then show ?thesis
    unfolding Rectangle_draw_root_outcome by (auto split: list.splits node.splits)
qed

text \<open>
  Claim C9 says that a render removes no child. The rectangle-style render of the
  tree built from \<^verbatim>\<open>{"a": {"b": 1}}\<close> prints two lines and leaves the root without
  children: \<^verbatim>\<open>self.children.pop(0)\<close> has removed the container \<^verbatim>\<open>a\<close>, which the
  builder had put there.
\<close>

theorem rectangle_render_removes_child:
  "get_result (fst (build_tree (TreeBuilder_init RectangleStyle default_icons) (JObj [(ascii ''a'', JObj [(ascii ''b'', JInt 1)])]) (ascii ''root'')))
     = Some (Container (ascii ''root'') [] [Container (ascii ''a'') [] [Leaf (ascii ''b: 1'') []]]) \<and>
   show (TreeBuilder_init RectangleStyle default_icons) (JObj [(ascii ''a'', JObj [(ascii ''b'', JInt 1)])]) =
     ([OPEN_PREFIX @ ascii '' a'' @ replicate 9 HBAR @ OPEN_POSTFIX,
       CLOSE_FIRST @ CLOSE_JOIN @ ascii '' b: 1'' @ replicate 2 HBAR @ CLOSE_POSTFIX],
      Inr (Container (ascii ''root'') [] []))"
  by (simp add: build_eval draw_eval)

text \<open>
  Claim C9, amended. For the root \<open>r\<close> captured by the builder, a render that
  completes leaves \<open>r\<close> unchanged in the tree style; in the rectangle style it
  leaves the root with its name, its icon and its children without the first one,
  and every node below them as it was.
\<close>

theorem render_frame:
  assumes "get_result (fst (build_tree (TreeBuilder_init sf fam) data (ascii ''root''))) = Some r"
      and "show (TreeBuilder_init sf fam) data = (out, Inr r')"
  shows "r' = (case sf of
                 TreeStyle \<Rightarrow> r
               | RectangleStyle \<Rightarrow> Container (name r) (icon r) (tl (children r)))"
proof -
  from build_tree_result[OF assms(1)] obtain cs where r: "r = Container (ascii ''root'') (container_icon fam) cs"
    by blast
  from assms(2) have v: "visit_container sf r = (out, Inr r')"
    by (simp only: show_built[OF assms(1)])
  show ?thesis
  proof (cases sf)
    case TreeStyle
    with v show ?thesis by (simp add: visit_container_def)
  next
    case RectangleStyle
    with v have "Rectangle_draw (Container (ascii ''root'') (container_icon fam) cs) R_INDENT True 0 = (out, Inr r')"
      by (simp add: visit_container_def r del: Rectangle_draw.simps ascii_simps)
    from Rectangle_draw_root[OF this] show ?thesis
      by (simp add: RectangleStyle r del: ascii_simps)
  qed
qed


theorem render_frame_witness:
  "snd (show (TreeBuilder_init RectangleStyle default_icons) (JObj [(ascii ''a'', JObj [(ascii ''b'', JInt 1)]), (ascii ''cccccccc'', JInt 2)])) =
     Inr (Container (ascii ''root'') [] [Leaf (ascii ''cccccccc: 2'') []])"
  using render_frame [of RectangleStyle default_icons "(JObj [(ascii ''a'', JObj [(ascii ''b'', JInt 1)]), (ascii ''cccccccc'', JInt 2)])"
      "Container (ascii ''root'') [] [Container (ascii ''a'') [] [Leaf (ascii ''b: 1'') []],
                                     Leaf (ascii ''cccccccc: 2'') []]"
      "fst (show (TreeBuilder_init RectangleStyle default_icons) (JObj [(ascii ''a'', JObj [(ascii ''b'', JInt 1)]), (ascii ''cccccccc'', JInt 2)]))"
      "Container (ascii ''root'') [] [Leaf (ascii ''cccccccc: 2'') []]"]
  by (simp add: build_eval draw_eval)

section \<open>Rectangle style: the defects\<close>

text \<open>
  Claim C1 says that every line of a rectangle-style render has the width measured
  by \<open>max_length\<close> plus a fixed overhead. The code does otherwise on
  \<^verbatim>\<open>{"a": {"b": 1}, "cccccccc": 2}\<close> with the default icons: \<open>max_length\<close> is 15, the
  first two lines are 19 wide and the last is 20 wide. The measure counts 3 columns
  for each level, the draw pass indents by 4, so \<open>line_length\<close> is \<open>-1\<close> for the last
  line and no dash is left to drop.
\<close>

theorem rectangle_width_misaligned:
  "max_length (Container (ascii ''root'') [] [Container (ascii ''a'') [] [Leaf (ascii ''b: 1'') []],
                                              Leaf (ascii ''cccccccc: 2'') []]) 0 = 15 \<and>
   show (TreeBuilder_init RectangleStyle default_icons) (JObj [(ascii ''a'', JObj [(ascii ''b'', JInt 1)]), (ascii ''cccccccc'', JInt 2)]) =
     ([OPEN_PREFIX @ ascii '' a'' @ replicate 13 HBAR @ OPEN_POSTFIX,
       BAR_INDENT @ BRANCH @ ascii '' b: 1'' @ replicate 6 HBAR @ MID_POSTFIX,
       CLOSE_FIRST @ CLOSE_JOIN @ ascii '' cccccccc: 2'' @ CLOSE_POSTFIX],
      Inr (Container (ascii ''root'') [] [Leaf (ascii ''cccccccc: 2'') []])) \<and>
   map length (fst (show (TreeBuilder_init RectangleStyle default_icons) (JObj [(ascii ''a'', JObj [(ascii ''b'', JInt 1)]), (ascii ''cccccccc'', JInt 2)]))) = [19, 19, 20]"
  by (simp add: build_eval draw_eval)

text \<open>
  Claim C2 says that rectangle-style drawing never fails on a built tree. The code
  does otherwise: on the empty mapping \<^verbatim>\<open>self.children[0]\<close> raises \<^verbatim>\<open>IndexError\<close>
  before anything is printed, and on \<^verbatim>\<open>{"x": 1}\<close>, whose root has a leaf as first
  child, \<^verbatim>\<open>self.children[0].children\<close> raises \<^verbatim>\<open>AttributeError\<close> after the opening
  line.
\<close>

theorem rectangle_draw_raises:
  "show (TreeBuilder_init RectangleStyle default_icons) (JObj []) = ([], Inl IndexError) \<and>
   show (TreeBuilder_init RectangleStyle default_icons) (JObj [(ascii ''x'', JInt 1)]) =
     ([OPEN_PREFIX @ ascii '' x: 1'' @ replicate 3 HBAR @ OPEN_POSTFIX], Inl AttributeError)"
  by (simp add: build_eval draw_eval)

text \<open>
  Claim C3, scenario C of the specification: \<^verbatim>\<open>{"x": 1, "y": 2}\<close> in the rectangle
  style with empty icons. The first line is the opener, as the claim says: the
  top-left corner, a dash, the label of \<^verbatim>\<open>x: 1\<close>, three dashes of padding, a dash and
  the top-right corner. It is also the last: \<^verbatim>\<open>self.children[0].children\<close> then
  raises \<^verbatim>\<open>AttributeError\<close>, so no line ending in the bottom-right corner is printed.
\<close>

theorem rectangle_scenario_c:
  "show (TreeBuilder_init RectangleStyle default_icons)
        (JObj [(ascii ''x'', JInt 1), (ascii ''y'', JInt 2)]) =
     ([[TOPLEFT, HBAR] @ ascii '' x: 1'' @ [HBAR, HBAR, HBAR] @ [HBAR, TOPRIGHT]],
      Inl AttributeError)"
  by (simp add: build_eval draw_eval)

end
